theory Spec2Isabelle
  imports Main
begin

section \<open>The SocSIM simulation base class (SOC/common/simulation.py)\<close>

text \<open>
  The module holds one class, \<open>Simulation\<close>, and one module-level function,
  \<open>clean_boundary_inplace\<close>. Python integers are unbounded, so they are \<open>int\<close> here;
  where numba makes them 64-bit integers, the range and the wrap-around are written
  out. The cells of a two-dimensional numpy array are a list of rows. Every \<open>raise\<close> of the source is an
  \<open>Inl\<close> result that carries the exception together with the object as it was when
  the exception left the method: Python does not undo the mutations made before it.
\<close>

subsection \<open>Exceptions\<close>

datatype error =
    NotImplementedError string
  | TypeError
  | ZeroDivisionError
  | AttributeError
  | IndexError
  | ValueError
  | OverflowError

subsection \<open>Two-dimensional arrays and slices\<close>

type_synonym 'a ndarray = "'a list list"

text \<open>
  A slice bound of a basic slice with step 1 on an axis of length \<open>n\<close>: a negative
  bound counts from the end, and the result is clipped to \<open>0..n\<close>. An omitted lower
  bound is \<open>0\<close>, an omitted upper bound is \<open>n\<close>.
\<close>

definition adjust_index :: "int \<Rightarrow> nat \<Rightarrow> nat" where
  "adjust_index i n =
     (if i < 0 then (if i + int n < 0 then 0 else nat (i + int n))
      else if int n < i then n else nat i)"

definition in_slice :: "int option \<times> int option \<Rightarrow> nat \<Rightarrow> nat \<Rightarrow> bool" where
  "in_slice sl n k =
     (let lo = (case fst sl of None \<Rightarrow> 0 | Some i \<Rightarrow> adjust_index i n);
          hi = (case snd sl of None \<Rightarrow> n | Some j \<Rightarrow> adjust_index j n)
      in lo \<le> k \<and> k < hi)"

text \<open>\<open>array[...] = v\<close>: every cell.\<close>

definition fill_all :: "'a ndarray \<Rightarrow> 'a \<Rightarrow> 'a ndarray" where
  "fill_all a v = map (map (\<lambda>_. v)) a"

text \<open>\<open>array.sum()\<close> of a boolean array: \<open>True\<close> counts 1, \<open>False\<close> counts 0.\<close>

definition ndarray_sum :: "bool ndarray \<Rightarrow> int" where
  "ndarray_sum a = sum_list (map (\<lambda>b. if b then 1 else 0) (concat a))"

subsection \<open>Array objects that share buffers\<close>

text \<open>
  The array that \<open>clean_boundary_inplace\<close> is given is an object that other names may
  refer to, and its cells may be cells of another array: a basic slice of an array is a
  view that shares the buffer of the array. The store maps the reference of a buffer to
  its cells. An array object is a window onto a buffer: the buffer, the row and the
  column of the buffer where the array starts, and the two dimensions of the array,
  each of which numpy keeps in a signed 64-bit integer. The array that owns a buffer is
  the window over all of it.
\<close>

type_synonym ref = nat
type_synonym 'a heap = "ref \<Rightarrow> 'a ndarray"

record view =
  buf :: ref
  row0 :: nat
  col0 :: nat
  nrows :: nat
  ncols :: nat

definition is_view :: "'a heap \<Rightarrow> view \<Rightarrow> bool" where
  "is_view h a =
     (row0 a + nrows a \<le> length (h (buf a)) \<and>
      list_all (\<lambda>row. col0 a + ncols a \<le> length row) (h (buf a)) \<and>
      int (nrows a) < 2 ^ 63 \<and> int (ncols a) < 2 ^ 63)"

definition in_window :: "view \<Rightarrow> nat \<Rightarrow> nat \<Rightarrow> bool" where
  "in_window a i j = (row0 a \<le> i \<and> i < row0 a + nrows a \<and> col0 a \<le> j \<and> j < col0 a + ncols a)"

text \<open>
  \<open>array[r0:r1, c0:c1] = v\<close> for a value \<open>v\<close> of the element type: the cells of the
  buffer that the two slices of the array select take the value \<open>v\<close>. The cell \<open>(i, j)\<close>
  of the buffer is the cell \<open>(i - row0, j - col0)\<close> of the array.
\<close>

definition selected :: "view \<Rightarrow> int option \<times> int option \<Rightarrow> int option \<times> int option
    \<Rightarrow> nat \<Rightarrow> nat \<Rightarrow> bool" where
  "selected a rows cols i j =
     (row0 a \<le> i \<and> col0 a \<le> j \<and>
      in_slice rows (nrows a) (i - row0 a) \<and> in_slice cols (ncols a) (j - col0 a))"

definition setitem :: "'a heap \<Rightarrow> view \<Rightarrow> int option \<times> int option \<Rightarrow> int option \<times> int option
    \<Rightarrow> 'a \<Rightarrow> 'a heap" where
  "setitem h a rows cols v =
     h(buf a :=
         map (\<lambda>i. map (\<lambda>j. if selected a rows cols i j then v else h (buf a) ! i ! j)
                     [0..<length (h (buf a) ! i)])
             [0..<length (h (buf a))])"

text \<open>\<open>array[i, j]\<close> for indices that are not negative.\<close>

definition getitem :: "'a heap \<Rightarrow> view \<Rightarrow> nat \<Rightarrow> nat \<Rightarrow> error + 'a" where
  "getitem h a i j =
     (if i < nrows a \<and> j < ncols a then Inr (h (buf a) ! (row0 a + i) ! (col0 a + j))
      else Inl IndexError)"

subsection \<open>Scalars under numba\<close>

text \<open>
  \<open>clean_boundary_inplace\<close> is compiled by numba. When the call is dispatched, an
  integer argument becomes a signed 64-bit integer; an integer outside that range is an
  overflow error, raised before the body runs. Negation of a 64-bit integer wraps.
\<close>

definition int64_arg :: "int \<Rightarrow> error + int" where
  "int64_arg x = (if - (2 ^ 63) \<le> x \<and> x < 2 ^ 63 then Inr x else Inl OverflowError)"

definition neg_int64 :: "int \<Rightarrow> int" where
  "neg_int64 x = (- x + 2 ^ 63) mod 2 ^ 64 - 2 ^ 63"

text \<open>
  A value stored into an array is converted to the element type of the array. The
  conversion depends on the type of the value and on the element type, and it is an
  argument of the model: it gives the element that gets stored, or the exception of a
  value that numba cannot take. Two conversions of an integer fill value are written
  out: into an array of 8-bit integers and into an array of 64-bit integers. The value
  is a 64-bit integer first and is then cut to the width of the element, so \<open>300\<close>
  becomes \<open>44\<close> in an 8-bit array; the elements are integers of the range of their
  width. A boolean stored into a boolean array is itself.
\<close>

definition int8_of_int :: "int \<Rightarrow> error + int" where
  "int8_of_int x =
     (case int64_arg x of Inl e \<Rightarrow> Inl e | Inr y \<Rightarrow> Inr ((y + 128) mod 256 - 128))"

definition int64_of_int :: "int \<Rightarrow> error + int" where
  "int64_of_int x = int64_arg x"

definition bool_of_bool :: "bool \<Rightarrow> error + bool" where
  "bool_of_bool b = Inr b"

subsection \<open>\<open>clean_boundary_inplace\<close>\<close>

text \<open>
  The function mutates the array object it is given and returns that same object. The
  two scalars are typed first, and the fill value is converted to the element type
  \<open>astype\<close> of the array; then each of the four slice assignments updates the buffer of
  the array. A call with an array that is not two-dimensional is rejected before the
  body runs; the model is typed accordingly. \<open>fill_value\<close> defaults to \<open>False\<close> in the
  source and is always passed here.
\<close>

definition clean_boundary_inplace ::
    "('f \<Rightarrow> error + 'a) \<Rightarrow> 'a heap \<Rightarrow> view \<Rightarrow> int \<Rightarrow> 'f \<Rightarrow> (error \<times> 'a heap) + (view \<times> 'a heap)" where
  "clean_boundary_inplace astype h array boundary_size fill_value =
     (case int64_arg boundary_size of
        Inl e \<Rightarrow> Inl (e, h)
      | Inr b \<Rightarrow>
          (case astype fill_value of
             Inl e \<Rightarrow> Inl (e, h)
           | Inr v \<Rightarrow>
               (let h1 = setitem h array (None, Some b) (None, None) v;
                    h2 = setitem h1 array (Some (neg_int64 b), None) (None, None) v;
                    h3 = setitem h2 array (None, None) (None, Some b) v;
                    h4 = setitem h3 array (None, None) (Some (neg_int64 b), None) v
                in Inr (array, h4))))"

text \<open>The store after the four assignments, and the cells of the buffer they reach.\<close>

definition cleaned :: "'a heap \<Rightarrow> view \<Rightarrow> int \<Rightarrow> 'a \<Rightarrow> 'a heap" where
  "cleaned h a b v =
     setitem (setitem (setitem (setitem h a (None, Some b) (None, None) v)
                a (Some (neg_int64 b), None) (None, None) v)
                a (None, None) (None, Some b) v)
                a (None, None) (Some (neg_int64 b), None) v"

definition on_border :: "view \<Rightarrow> int \<Rightarrow> nat \<Rightarrow> nat \<Rightarrow> bool" where
  "on_border a b i j =
     (selected a (None, Some b) (None, None) i j \<or>
      selected a (Some (neg_int64 b), None) (None, None) i j \<or>
      selected a (None, None) (None, Some b) i j \<or>
      selected a (None, None) (Some (neg_int64 b), None) i j)"

text \<open>
  A store in which every buffer holds the same cells, and the array that owns a buffer
  of \<open>n\<close> rows and \<open>m\<close> columns.
\<close>

definition store_of :: "'a ndarray \<Rightarrow> 'a heap" where
  "store_of cells = (\<lambda>_. cells)"

definition whole :: "ref \<Rightarrow> nat \<Rightarrow> nat \<Rightarrow> view" where
  "whole q n m = \<lparr>buf = q, row0 = 0, col0 = 0, nrows = n, ncols = m\<rparr>"

text \<open>
  What a call left behind: a cell of the returned array, or the exception; and a buffer
  of the store after the call.
\<close>

definition cell_after :: "(error \<times> 'a heap) + (view \<times> 'a heap) \<Rightarrow> nat \<Rightarrow> nat \<Rightarrow> error + 'a" where
  "cell_after r i j =
     (case r of Inl e \<Rightarrow> Inl (fst e) | Inr x \<Rightarrow> getitem (snd x) (fst x) i j)"

definition buffer_after :: "(error \<times> 'a heap) + (view \<times> 'a heap) \<Rightarrow> ref \<Rightarrow> 'a ndarray" where
  "buffer_after r q = (case r of Inl e \<Rightarrow> snd e q | Inr x \<Rightarrow> snd x q)"

subsection \<open>The snapshot store\<close>

text \<open>
  \<open>zarr.open\<close> and item assignment on the array it returns belong to the zarr library.
  The store is modelled by what the simulation relies on: the file does not exist yet,
  so the store is created with the number of frames that \<open>run\<close> asks for, an integer index below zero counts from the end, and an index
  outside the frames raises an index error. A frame that was never written is \<open>None\<close>.
\<close>

record 'a zarr_array =
  store_name :: string
  store_shape :: "int \<times> int \<times> int"
  store_chunks :: "int \<times> int \<times> int"
  frames :: "'a ndarray option list"

definition zarr_open :: "string \<Rightarrow> int \<times> int \<times> int \<Rightarrow> int \<times> int \<times> int \<Rightarrow> 'a zarr_array" where
  "zarr_open filename shp chunks =
     \<lparr>store_name = filename, store_shape = shp, store_chunks = chunks,
      frames = replicate (nat (fst shp)) None\<rparr>"

definition zarr_setitem :: "'a zarr_array \<Rightarrow> int \<Rightarrow> 'a ndarray \<Rightarrow> error + 'a zarr_array" where
  "zarr_setitem z k frame =
     (let n = int (length (frames z));
          j = (if k < 0 then n + k else k)
      in if j < 0 \<or> n \<le> j then Inl IndexError
         else Inr (z\<lparr>frames := (frames z)[nat j := Some frame]\<rparr>))"

subsection \<open>The simulation object\<close>

text \<open>
  The attributes set by \<open>__init__\<close>, and the two class attributes \<open>values\<close> and
  \<open>saved_snapshots\<close>, whose class-level value \<open>NotImplemented\<close> is \<open>None\<close>. A subclass
  adds attributes of its own: they are the extension part of the record. An observable
  record is a Python \<open>dict\<close> with string keys, kept as an association list in insertion
  order.
\<close>

type_synonym observables = "(string \<times> int) list"

record 'a simulation =
  L :: int
  L_with_boundary :: int
  size_attr :: int
  visited :: "bool ndarray"
  data_acquisition :: "observables list"
  save_every :: "int option"
  values_attr :: "'a ndarray option"
  saved_snapshots :: "'a zarr_array option"

definition BOUNDARY_SIZE :: int where
  "BOUNDARY_SIZE = 1"

text \<open>\<open>np.zeros\<close> refuses a negative dimension.\<close>

definition Simulation_init :: "int \<Rightarrow> int option \<Rightarrow> error + 'a simulation" where
  "Simulation_init l every =
     (let lb = l + 2 * BOUNDARY_SIZE
      in if lb < 0 then Inl ValueError
         else Inr \<lparr>L = l, L_with_boundary = lb, size_attr = l * l,
                   visited = replicate (nat lb) (replicate (nat lb) False),
                   data_acquisition = [], save_every = every,
                   values_attr = None, saved_snapshots = None\<rparr>)"

subsection \<open>The overridable methods\<close>

text \<open>
  A class is the table of its three overridable methods. A method takes the object and
  returns it updated, or the exception it raised. \<open>topple\<close> also returns the value the
  \<open>while\<close> loop tests.
\<close>

type_synonym ('a, 'z) state = "('a, 'z) simulation_scheme"

record ('a, 'z) model =
  class_name :: string
  drive :: "('a, 'z) state \<Rightarrow> (error \<times> ('a, 'z) state) + ('a, 'z) state"
  topple :: "('a, 'z) state \<Rightarrow> (error \<times> ('a, 'z) state) + (bool \<times> ('a, 'z) state)"
  dissipate :: "('a, 'z) state \<Rightarrow> (error \<times> ('a, 'z) state) + ('a, 'z) state"

definition Simulation_drive :: "('a, 'z) state \<Rightarrow> (error \<times> ('a, 'z) state) + ('a, 'z) state" where
  "Simulation_drive s = Inl (NotImplementedError ''Your model needs to override the drive method!'', s)"

definition Simulation_topple ::
    "('a, 'z) state \<Rightarrow> (error \<times> ('a, 'z) state) + (bool \<times> ('a, 'z) state)" where
  "Simulation_topple s = Inl (NotImplementedError ''Your model needs to override the topple method!'', s)"

definition Simulation_dissipate :: "('a, 'z) state \<Rightarrow> (error \<times> ('a, 'z) state) + ('a, 'z) state" where
  "Simulation_dissipate s = Inr s"

definition Simulation :: "('a, 'z) model" where
  "Simulation = \<lparr>class_name = ''Simulation'', drive = Simulation_drive,
                  topple = Simulation_topple, dissipate = Simulation_dissipate\<rparr>"

subsection \<open>\<open>AvalancheLoop\<close>\<close>

text \<open>
  The \<open>while self.topple():\<close> loop has no bound, so it is a partial function: \<open>None\<close> is
  a loop that never ends.
\<close>

partial_function (option) topple_loop ::
    "('a, 'z) model \<Rightarrow> int \<Rightarrow> ('a, 'z) state
      \<Rightarrow> ((error \<times> ('a, 'z) state) + (int \<times> ('a, 'z) state)) option" where
  "topple_loop m number_of_iterations s =
     (case topple m s of
        Inl e \<Rightarrow> Some (Inl e)
      | Inr r \<Rightarrow>
          if fst r then
            (case dissipate m (snd r) of
               Inl e \<Rightarrow> Some (Inl e)
             | Inr s2 \<Rightarrow> topple_loop m (number_of_iterations + 1) s2)
          else Some (Inr (number_of_iterations, snd r)))"

declare topple_loop.simps [code]

definition AvalancheLoop ::
    "('a, 'z) model \<Rightarrow> ('a, 'z) state
      \<Rightarrow> ((error \<times> ('a, 'z) state) + (observables \<times> ('a, 'z) state)) option" where
  "AvalancheLoop m s =
     (case topple_loop m 0 (s\<lparr>visited := fill_all (visited s) False\<rparr>) of
        None \<Rightarrow> None
      | Some (Inl e) \<Rightarrow> Some (Inl e)
      | Some (Inr (number_of_iterations, s1)) \<Rightarrow>
          Some (Inr ([(''AvalancheSize'', ndarray_sum (visited s1)),
                      (''number_of_iterations'', number_of_iterations)], s1)))"

subsection \<open>\<open>run\<close> and \<open>_save_snapshot\<close>\<close>

text \<open>
  \<open>i // self.save_every\<close> raises a type error when \<open>save_every\<close> is \<open>None\<close> and a
  division error when it is 0; \<open>div\<close> and \<open>mod\<close> on \<open>int\<close> round as Python's \<open>//\<close> and
  \<open>%\<close> do. Item assignment on the placeholder \<open>NotImplemented\<close> is a type error.
\<close>

definition save_snapshot :: "('a, 'z) state \<Rightarrow> int \<Rightarrow> (error \<times> ('a, 'z) state) + ('a, 'z) state" where
  "save_snapshot s i =
     (case save_every s of
        None \<Rightarrow> Inl (TypeError, s)
      | Some c \<Rightarrow>
          if c = 0 then Inl (ZeroDivisionError, s)
          else (case saved_snapshots s of
                  None \<Rightarrow> Inl (TypeError, s)
                | Some z \<Rightarrow>
                    (case values_attr s of
                       None \<Rightarrow> Inl (TypeError, s)
                     | Some v \<Rightarrow>
                         (case zarr_setitem z (i div c) v of
                            Inl e \<Rightarrow> Inl (e, s)
                          | Inr z' \<Rightarrow> Inr (s\<lparr>saved_snapshots := Some z'\<rparr>)))))"

text \<open>The body of the \<open>for\<close> loop, for one value of \<open>i\<close>.\<close>

definition run_step ::
    "('a, 'z) model \<Rightarrow> int \<Rightarrow> ('a, 'z) state \<Rightarrow> ((error \<times> ('a, 'z) state) + ('a, 'z) state) option" where
  "run_step m i s =
     (case drive m s of
        Inl e \<Rightarrow> Some (Inl e)
      | Inr s1 \<Rightarrow>
          (case AvalancheLoop m s1 of
             None \<Rightarrow> None
           | Some (Inl e) \<Rightarrow> Some (Inl e)
           | Some (Inr (obs, s2)) \<Rightarrow>
               (let s3 = s2\<lparr>data_acquisition := data_acquisition s2 @ [obs]\<rparr>
                in case save_every s3 of
                     None \<Rightarrow> Some (Inr s3)
                   | Some c \<Rightarrow>
                       if c = 0 then Some (Inl (ZeroDivisionError, s3))
                       else if i mod c = 0 then Some (save_snapshot s3 i)
                       else Some (Inr s3))))"

text \<open>The \<open>for\<close> loop over the values of \<open>i\<close> still to come.\<close>

fun run_loop ::
    "('a, 'z) model \<Rightarrow> int list \<Rightarrow> ('a, 'z) state \<Rightarrow> ((error \<times> ('a, 'z) state) + ('a, 'z) state) option" where
  "run_loop m [] s = Some (Inr s)"
| "run_loop m (i # rest) s =
     (case run_step m i s of
        None \<Rightarrow> None
      | Some (Inl e) \<Rightarrow> Some (Inl e)
      | Some (Inr s1) \<Rightarrow> run_loop m rest s1)"

text \<open>
  \<open>run\<close> takes, besides its two parameters, the reading of the clock that the default
  file name is built from. The arguments of \<open>zarr.open\<close> are evaluated from left to
  right: the frame count first, the \<open>dtype\<close> of \<open>self.values\<close> last.
\<close>

definition run ::
    "('a, 'z) model \<Rightarrow> int \<Rightarrow> string option \<Rightarrow> string \<Rightarrow> ('a, 'z) state
      \<Rightarrow> ((error \<times> ('a, 'z) state) + ('a, 'z) state) option" where
  "run m N_iterations filename now s =
     (let fname = (case filename of
                     None \<Rightarrow> ''array_'' @ class_name m @ ''_'' @ now @ ''.zarr''
                   | Some f \<Rightarrow> f)
      in case save_every s of
           None \<Rightarrow> Some (Inl (TypeError, s))
         | Some c \<Rightarrow>
             if c = 0 then Some (Inl (ZeroDivisionError, s))
             else (case values_attr s of
                     None \<Rightarrow> Some (Inl (AttributeError, s))
                   | Some v \<Rightarrow>
                       run_loop m (map int [0..<nat N_iterations])
                         (s\<lparr>saved_snapshots :=
                              Some (zarr_open fname
                                (max (N_iterations div c) 1, L_with_boundary s, L_with_boundary s)
                                (1, L_with_boundary s, L_with_boundary s))\<rparr>)))"

subsection \<open>The tabular export\<close>

text \<open>
  \<open>plot_histogram\<close> hands the accumulated records to \<open>pandas.DataFrame\<close>. Of that
  library call only the column names are needed: the keys of the records, each once, in
  the order in which they first occur.
\<close>

definition DataFrame_columns :: "observables list \<Rightarrow> string list" where
  "DataFrame_columns recs = rev (remdups (rev (concat (map (map fst) recs))))"

subsection \<open>Observing the outcome of a call\<close>

text \<open>
  The exception a call ended with, if any, and the observation sequence of the object
  after the call; both are \<open>None\<close> for a call that never ends.
\<close>

definition raised :: "((error \<times> ('a, 'z) state) + 'r) option \<Rightarrow> error option option" where
  "raised r = (case r of None \<Rightarrow> None | Some (Inl e) \<Rightarrow> Some (Some (fst e)) | Some (Inr x) \<Rightarrow> Some None)"

definition records_after ::
    "((error \<times> ('a, 'z) state) + ('a, 'z) state) option \<Rightarrow> observables list option" where
  "records_after r =
     (case r of None \<Rightarrow> None
      | Some (Inl e) \<Rightarrow> Some (data_acquisition (snd e))
      | Some (Inr s) \<Rightarrow> Some (data_acquisition s))"

definition frames_after ::
    "((error \<times> ('a, 'z) state) + ('a, 'z) state) option \<Rightarrow> 'a ndarray option list option" where
  "frames_after r =
     (case r of None \<Rightarrow> None
      | Some (Inl e) \<Rightarrow> map_option frames (saved_snapshots (snd e))
      | Some (Inr s) \<Rightarrow> map_option frames (saved_snapshots s))"

subsection \<open>The avalanche engine of the specification\<close>

text \<open>
  The specification describes the relaxation as a machine with the states
  \<open>Idle\<close>, \<open>Relaxing\<close> and \<open>Quiescent\<close>: on the start of an avalanche the visited mask is
  reset; while \<open>topple\<close> returns true, \<open>dissipate\<close> is called and the iteration counter
  goes up by one; when \<open>topple\<close> returns false the avalanche is over, and the output is
  the number of true cells of the visited mask with the iteration counter. These
  definitions follow those words, not the code; \<open>AvalancheLoop\<close> is compared with them.
\<close>

datatype phase = Idle | Relaxing | Quiescent

definition count_true :: "bool ndarray \<Rightarrow> nat" where
  "count_true a = length (filter (\<lambda>b. b) (concat a))"

inductive spec_engine_step ::
    "('a, 'z) model \<Rightarrow> phase \<times> nat \<times> ('a, 'z) state \<Rightarrow> phase \<times> nat \<times> ('a, 'z) state \<Rightarrow> bool"
    for m :: "('a, 'z) model" where
  start: "spec_engine_step m (Idle, c, s) (Relaxing, 0, s\<lparr>visited := fill_all (visited s) False\<rparr>)"
| again: "topple m s = Inr (True, s1) \<Longrightarrow> dissipate m s1 = Inr s2
          \<Longrightarrow> spec_engine_step m (Relaxing, c, s) (Relaxing, Suc c, s2)"
| stop: "topple m s = Inr (False, s1) \<Longrightarrow> spec_engine_step m (Relaxing, c, s) (Quiescent, c, s1)"

code_pred (modes: i \<Rightarrow> i \<Rightarrow> o \<Rightarrow> bool as spec_engine_next) spec_engine_step .

definition spec_engine_output :: "nat \<Rightarrow> ('a, 'z) state \<Rightarrow> nat \<times> nat" where
  "spec_engine_output c s = (count_true (visited s), c)"

subsection \<open>Determinism of the relaxation\<close>

text \<open>
  Two objects have the same lattice when their \<open>values\<close> and their visited masks are
  equal. Two calls have the same outcome when both raise the same exception or both
  return the same value, and leave the same lattice. A \<open>topple\<close>/\<open>dissipate\<close> pair is
  deterministic when its outcome is a function of the lattice alone.
\<close>

definition same_lattice :: "('a, 'z) state \<Rightarrow> ('a, 'z) state \<Rightarrow> bool" where
  "same_lattice s t = (values_attr s = values_attr t \<and> visited s = visited t)"

definition same_outcome ::
    "(error \<times> ('a, 'z) state) + ('r \<times> ('a, 'z) state)
      \<Rightarrow> (error \<times> ('a, 'z) state) + ('r \<times> ('a, 'z) state) \<Rightarrow> bool" where
  "same_outcome x y =
     (case x of
        Inl e \<Rightarrow> (case y of Inl e' \<Rightarrow> fst e = fst e' \<and> same_lattice (snd e) (snd e') | Inr r' \<Rightarrow> False)
      | Inr r \<Rightarrow> (case y of Inl e' \<Rightarrow> False | Inr r' \<Rightarrow> fst r = fst r' \<and> same_lattice (snd r) (snd r')))"

definition deterministic_pair :: "('a, 'z) model \<Rightarrow> bool" where
  "deterministic_pair m =
     (\<forall>s t. same_lattice s t \<longrightarrow>
        same_outcome (topple m s) (topple m t) \<and>
        same_outcome (map_sum id (Pair ()) (dissipate m s)) (map_sum id (Pair ()) (dissipate m t)))"

text \<open>
  The visited masks that \<open>AvalancheLoop\<close> passes through: the mask after the reset, then
  the mask after every \<open>topple\<close> and every \<open>dissipate\<close>, for at most \<open>k\<close> rounds of the
  loop. The bound makes the sequence finite also for a loop that never ends.
\<close>

fun visited_updates :: "('a, 'z) model \<Rightarrow> nat \<Rightarrow> ('a, 'z) state \<Rightarrow> bool ndarray list" where
  "visited_updates m 0 s = []"
| "visited_updates m (Suc k) s =
     (case topple m s of
        Inl e \<Rightarrow> [visited (snd e)]
      | Inr r \<Rightarrow>
          visited (snd r) #
            (if fst r then
               (case dissipate m (snd r) of
                  Inl e \<Rightarrow> [visited (snd e)]
                | Inr s2 \<Rightarrow> visited s2 # visited_updates m k s2)
             else []))"

definition AvalancheLoop_visited :: "('a, 'z) model \<Rightarrow> nat \<Rightarrow> ('a, 'z) state \<Rightarrow> bool ndarray list" where
  "AvalancheLoop_visited m k s =
     fill_all (visited s) False # visited_updates m k (s\<lparr>visited := fill_all (visited s) False\<rparr>)"

subsection \<open>Sample models\<close>

text \<open>
  Two small subclasses on a lattice with one interior site. \<open>Quiet\<close> has a \<open>drive\<close>
  that does nothing and a \<open>topple\<close> that returns false at once. \<open>Pile\<close> drops three
  grains on the interior site in \<open>drive\<close>; its \<open>topple\<close> removes two grains from the
  site and marks it visited while at least two grains are there.
\<close>

definition lattice :: "int option \<Rightarrow> (int, unit) state" where
  "lattice every =
     \<lparr>L = 1, L_with_boundary = 3, size_attr = 1,
      visited = [[False, False, False], [False, False, False], [False, False, False]],
      data_acquisition = [], save_every = every,
      values_attr = Some [[0, 0, 0], [0, 0, 0], [0, 0, 0]], saved_snapshots = None\<rparr>"

definition quiet :: "(int, unit) model" where
  "quiet = Simulation\<lparr>class_name := ''Quiet'', drive := (\<lambda>s. Inr s), topple := (\<lambda>s. Inr (False, s))\<rparr>"

definition pile_drive :: "(int, 'z) state \<Rightarrow> (error \<times> (int, 'z) state) + (int, 'z) state" where
  "pile_drive s =
     (case values_attr s of
        None \<Rightarrow> Inl (TypeError, s)
      | Some v \<Rightarrow> Inr (s\<lparr>values_attr := Some (v[1 := (v ! 1)[1 := v ! 1 ! 1 + 3]])\<rparr>))"

definition pile_topple :: "(int, 'z) state \<Rightarrow> (error \<times> (int, 'z) state) + (bool \<times> (int, 'z) state)" where
  "pile_topple s =
     (case values_attr s of
        None \<Rightarrow> Inl (TypeError, s)
      | Some v \<Rightarrow>
          if 2 \<le> v ! 1 ! 1
          then Inr (True, s\<lparr>values_attr := Some (v[1 := (v ! 1)[1 := v ! 1 ! 1 - 2]]),
                            visited := (visited s)[1 := (visited s ! 1)[1 := True]]\<rparr>)
          else Inr (False, s))"

definition pile :: "(int, unit) model" where
  "pile = Simulation\<lparr>class_name := ''Pile'', drive := pile_drive, topple := pile_topple\<rparr>"

section \<open>Unfolding the model on closed inputs\<close>

lemmas model_defs = Simulation_def Simulation_drive_def Simulation_topple_def Simulation_dissipate_def
  pile_def pile_drive_def pile_topple_def lattice_def
lemmas run_defs = run_def run_step_def save_snapshot_def zarr_open_def zarr_setitem_def
  AvalancheLoop_def fill_all_def ndarray_sum_def

section \<open>Properties of the boundary reset\<close>

lemma in_slice_all [simp]: "in_slice (None, None) n k = (k < n)"
  by (simp add: in_slice_def)

lemma setitem_other [simp]: "q \<noteq> buf a \<Longrightarrow> setitem h a r c v q = h q"
  by (simp add: setitem_def)

lemma length_setitem [simp]: "length (setitem h a r c v q) = length (h q)"
  by (simp add: setitem_def)

lemma length_setitem_row [simp]:
  "i < length (h q) \<Longrightarrow> length (setitem h a r c v q ! i) = length (h q ! i)"
  by (cases "q = buf a") (simp_all add: setitem_def)

lemma setitem_nth:
  "i < length (h (buf a)) \<Longrightarrow> j < length (h (buf a) ! i) \<Longrightarrow>
   setitem h a r c v (buf a) ! i ! j = (if selected a r c i j then v else h (buf a) ! i ! j)"
  by (simp add: setitem_def)

lemma clean_boundary_inplace_eq:
  "clean_boundary_inplace astype h a b f =
     (case int64_arg b of
        Inl e \<Rightarrow> Inl (e, h)
      | Inr b' \<Rightarrow> (case astype f of Inl e \<Rightarrow> Inl (e, h) | Inr v \<Rightarrow> Inr (a, cleaned h a b' v)))"
  by (simp add: clean_boundary_inplace_def cleaned_def Let_def split: sum.splits)

lemma cleaned_other [simp]: "q \<noteq> buf a \<Longrightarrow> cleaned h a b v q = h q"
  by (simp add: cleaned_def)

lemma length_cleaned [simp]: "length (cleaned h a b v q) = length (h q)"
  by (simp add: cleaned_def)

lemma length_cleaned_row [simp]:
  "i < length (h q) \<Longrightarrow> length (cleaned h a b v q ! i) = length (h q ! i)"
  by (simp add: cleaned_def)

lemma cleaned_nth:
  "i < length (h (buf a)) \<Longrightarrow> j < length (h (buf a) ! i) \<Longrightarrow>
   cleaned h a b v (buf a) ! i ! j = (if on_border a b i j then v else h (buf a) ! i ! j)"
  by (simp add: cleaned_def setitem_nth on_border_def)

lemma ndarray_eqI:
  fixes a b :: "'a ndarray"
  assumes "length a = length b"
    and "\<And>i. i < length a \<Longrightarrow> length (a ! i) = length (b ! i)"
    and "\<And>i j. i < length a \<Longrightarrow> j < length (a ! i) \<Longrightarrow> a ! i ! j = b ! i ! j"
  shows "a = b"
proof (rule nth_equalityI)
  show "length a = length b" by (rule assms(1))
next
  fix i assume i: "i < length a"
  show "a ! i = b ! i"
    by (rule nth_equalityI) (use i assms(2,3) in auto)
qed

lemma cleaned_idem: "cleaned (cleaned h a b v) a b v = cleaned h a b v"
proof
  fix q
  show "cleaned (cleaned h a b v) a b v q = cleaned h a b v q"
  proof (cases "q = buf a")
    case True
    show ?thesis unfolding True
      by (rule ndarray_eqI) (simp_all add: cleaned_nth)
  next
    case False
    then show ?thesis by simp
  qed
qed

lemma adjust_index_le: "adjust_index i n \<le> n"
  unfolding adjust_index_def by (cases "i < 0"; cases "i + int n < 0"; cases "int n < i") simp_all

lemma in_slice_less: "in_slice sl n k \<Longrightarrow> k < n"
proof (cases "snd sl")
  case None
  then show "in_slice sl n k \<Longrightarrow> k < n" by (simp add: in_slice_def Let_def)
next
  case (Some j)
  assume "in_slice sl n k"
  with Some have "k < adjust_index j n" by (simp add: in_slice_def Let_def)
  with adjust_index_le [of j n] show "k < n" by simp
qed

lemma selected_in_window:
  assumes "selected a r c i j"
  shows "in_window a i j"
proof -
  from assms have "row0 a \<le> i" "col0 a \<le> j"
    "in_slice r (nrows a) (i - row0 a)" "in_slice c (ncols a) (j - col0 a)"
    by (simp_all add: selected_def)
  with in_slice_less [of r "nrows a" "i - row0 a"] in_slice_less [of c "ncols a" "j - col0 a"]
  have "row0 a \<le> i" "col0 a \<le> j" "i - row0 a < nrows a" "j - col0 a < ncols a"
    by simp_all
  then show ?thesis unfolding in_window_def by linarith
qed

lemma on_border_in_window: "on_border a b i j \<Longrightarrow> in_window a i j"
  by (auto simp: on_border_def dest: selected_in_window)

lemma neg_int64_eq: "- (2 ^ 63) < x \<Longrightarrow> x < 2 ^ 63 \<Longrightarrow> neg_int64 x = - x"
  by (simp add: neg_int64_def)

lemma on_border_wide:
  assumes "1 \<le> b" "b < 2 ^ 63" "i < nrows a" "j < ncols a"
  shows "on_border a b (row0 a + i) (col0 a + j) =
           (int i < b \<or> int (nrows a) - b \<le> int i \<or> int j < b \<or> int (ncols a) - b \<le> int j)"
proof -
  from assms(1,2) have "neg_int64 b = - b" by (intro neg_int64_eq) simp_all
  with assms(1,3,4) show ?thesis
    by (auto simp: on_border_def selected_def in_slice_def adjust_index_def)
qed

lemma is_view_cleaned: "is_view h a \<Longrightarrow> is_view (cleaned h a' b v) a"
  by (auto simp: is_view_def list_all_length)

text \<open>
  C4, as the code has it. Take an array with at least \<open>2B\<close> rows and columns and a width
  \<open>B \<ge> 1\<close>. A fill value that has no conversion to the element type makes the call
  raise, and the store is as it was. Otherwise the call returns the array object it was
  given; no other buffer changes, and the buffer of the array keeps its shape and its
  cells outside the array; every cell of the array within \<open>B\<close> of an edge holds the
  converted fill value, and every other cell of the array is as it was.
\<close>

theorem clean_boundary_inplace_border:
  assumes "1 \<le> B" and "is_view h array"
    and "2 * B \<le> int (nrows array)" and "2 * B \<le> int (ncols array)"
  shows "(\<forall>e. astype fill_value = Inl e \<longrightarrow>
            clean_boundary_inplace astype h array B fill_value = Inl (e, h)) \<and>
         (\<forall>v. astype fill_value = Inr v \<longrightarrow>
            (\<exists>h'. clean_boundary_inplace astype h array B fill_value = Inr (array, h') \<and>
                  (\<forall>q. q \<noteq> buf array \<longrightarrow> h' q = h q) \<and>
                  length (h' (buf array)) = length (h (buf array)) \<and>
                  (\<forall>i. i < length (h (buf array)) \<longrightarrow>
                       length (h' (buf array) ! i) = length (h (buf array) ! i)) \<and>
                  (\<forall>i j. i < length (h (buf array)) \<and> j < length (h (buf array) ! i) \<and>
                         \<not> in_window array i j \<longrightarrow>
                         h' (buf array) ! i ! j = h (buf array) ! i ! j) \<and>
                  is_view h' array \<and>
                  (\<forall>i j. i < nrows array \<and> j < ncols array \<longrightarrow>
                     getitem h' array i j =
                       Inr (if int i < B \<or> int (nrows array) - B \<le> int i \<or>
                               int j < B \<or> int (ncols array) - B \<le> int j
                            then v else h (buf array) ! (row0 array + i) ! (col0 array + j)))))"
proof -
  from assms(2) have dims: "int (nrows array) < 2 ^ 63"
    and rows: "row0 array + nrows array \<le> length (h (buf array))"
    and cols: "\<And>i. i < length (h (buf array)) \<Longrightarrow> col0 array + ncols array \<le> length (h (buf array) ! i)"
    by (auto simp: is_view_def list_all_length)
  from assms(1,3) dims have B: "- (2 ^ 63) \<le> B" "B < 2 ^ 63" by linarith+
  then have arg: "int64_arg B = Inr B" by (simp add: int64_arg_def)
  have raise: "clean_boundary_inplace astype h array B fill_value = Inl (e, h)"
    if "astype fill_value = Inl e" for e
    using that arg by (simp add: clean_boundary_inplace_eq)
  have ret: "\<exists>h'. clean_boundary_inplace astype h array B fill_value = Inr (array, h') \<and>
                  (\<forall>q. q \<noteq> buf array \<longrightarrow> h' q = h q) \<and>
                  length (h' (buf array)) = length (h (buf array)) \<and>
                  (\<forall>i. i < length (h (buf array)) \<longrightarrow>
                       length (h' (buf array) ! i) = length (h (buf array) ! i)) \<and>
                  (\<forall>i j. i < length (h (buf array)) \<and> j < length (h (buf array) ! i) \<and>
                         \<not> in_window array i j \<longrightarrow>
                         h' (buf array) ! i ! j = h (buf array) ! i ! j) \<and>
                  is_view h' array \<and>
                  (\<forall>i j. i < nrows array \<and> j < ncols array \<longrightarrow>
                     getitem h' array i j =
                       Inr (if int i < B \<or> int (nrows array) - B \<le> int i \<or>
                               int j < B \<or> int (ncols array) - B \<le> int j
                            then v else h (buf array) ! (row0 array + i) ! (col0 array + j)))"
    if v: "astype fill_value = Inr v" for v
  proof (intro exI [of _ "cleaned h array B v"] conjI allI impI)
    show "clean_boundary_inplace astype h array B fill_value = Inr (array, cleaned h array B v)"
      using v arg by (simp add: clean_boundary_inplace_eq)
  next
    fix q assume "q \<noteq> buf array"
    then show "cleaned h array B v q = h q" by simp
  next
    show "length (cleaned h array B v (buf array)) = length (h (buf array))" by simp
  next
    fix i assume "i < length (h (buf array))"
    then show "length (cleaned h array B v (buf array) ! i) = length (h (buf array) ! i)" by simp
  next
    fix i j
    assume "i < length (h (buf array)) \<and> j < length (h (buf array) ! i) \<and> \<not> in_window array i j"
    then show "cleaned h array B v (buf array) ! i ! j = h (buf array) ! i ! j"
      using on_border_in_window [of array B i j] by (auto simp: cleaned_nth)
  next
    show "is_view (cleaned h array B v) array" by (rule is_view_cleaned [OF assms(2)])
  next
    fix i j assume ij: "i < nrows array \<and> j < ncols array"
    with rows have i: "row0 array + i < length (h (buf array))" by linarith
    from cols [OF i] ij have j: "col0 array + j < length (h (buf array) ! (row0 array + i))"
      by linarith
    from ij on_border_wide [OF assms(1) B(2), of i array j]
    have "on_border array B (row0 array + i) (col0 array + j) =
           (int i < B \<or> int (nrows array) - B \<le> int i \<or> int j < B \<or> int (ncols array) - B \<le> int j)"
      by simp
    with ij show "getitem (cleaned h array B v) array i j =
        Inr (if int i < B \<or> int (nrows array) - B \<le> int i \<or>
                int j < B \<or> int (ncols array) - B \<le> int j
             then v else h (buf array) ! (row0 array + i) ! (col0 array + j))"
      using cleaned_nth [of "row0 array + i" h array "col0 array + j" B v, OF i j]
      by (simp add: getitem_def)
  qed
  from raise ret show ?thesis by blast
qed

theorem clean_boundary_inplace_border_witness:
  "(1::int) \<le> 1 \<and>
   is_view (\<lambda>_. [[1, 2, 3, 4], [5, 6, 7, 8], [9, 10, 11, 12], [13, 14, 15, 16::int]])
     \<lparr>buf = 0, row0 = 1, col0 = 1, nrows = 3, ncols = 3\<rparr> \<and>
   2 * 1 \<le> int (nrows \<lparr>buf = 0, row0 = 1, col0 = 1, nrows = 3, ncols = 3\<rparr>) \<and>
   2 * 1 \<le> int (ncols \<lparr>buf = 0, row0 = 1, col0 = 1, nrows = 3, ncols = 3\<rparr>) \<and>
   int8_of_int 300 = Inr 44 \<and>
   cell_after
     (clean_boundary_inplace int8_of_int
        (\<lambda>_. [[1, 2, 3, 4], [5, 6, 7, 8], [9, 10, 11, 12], [13, 14, 15, 16]])
        \<lparr>buf = 0, row0 = 1, col0 = 1, nrows = 3, ncols = 3\<rparr> 1 300) 0 2 = Inr 44 \<and>
   cell_after
     (clean_boundary_inplace int8_of_int
        (\<lambda>_. [[1, 2, 3, 4], [5, 6, 7, 8], [9, 10, 11, 12], [13, 14, 15, 16]])
        \<lparr>buf = 0, row0 = 1, col0 = 1, nrows = 3, ncols = 3\<rparr> 1 300) 1 1 = Inr 11 \<and>
   buffer_after
     (clean_boundary_inplace int8_of_int
        (\<lambda>_. [[1, 2, 3, 4], [5, 6, 7, 8], [9, 10, 11, 12], [13, 14, 15, 16]])
        \<lparr>buf = 0, row0 = 1, col0 = 1, nrows = 3, ncols = 3\<rparr> 1 300) 0 ! 0 ! 3 = 4 \<and>
   buffer_after
     (clean_boundary_inplace int8_of_int
        (\<lambda>_. [[1, 2, 3, 4], [5, 6, 7, 8], [9, 10, 11, 12], [13, 14, 15, 16]])
        \<lparr>buf = 0, row0 = 1, col0 = 1, nrows = 3, ncols = 3\<rparr> 1 300) 1
     = [[1, 2, 3, 4], [5, 6, 7, 8], [9, 10, 11, 12], [13, 14, 15, 16]] \<and>
   int8_of_int 9223372036854775808 = Inl OverflowError \<and>
   clean_boundary_inplace int8_of_int
     (\<lambda>_. [[1, 2, 3, 4], [5, 6, 7, 8], [9, 10, 11, 12], [13, 14, 15, 16]])
     \<lparr>buf = 0, row0 = 1, col0 = 1, nrows = 3, ncols = 3\<rparr> 1 9223372036854775808
     = Inl (OverflowError, \<lambda>_. [[1, 2, 3, 4], [5, 6, 7, 8], [9, 10, 11, 12], [13, 14, 15, 16]])"
proof -
  let ?h = "\<lambda>_::ref. [[1, 2, 3, 4], [5, 6, 7, 8], [9, 10, 11, 12], [13, 14, 15, 16::int]]"
  let ?a = "\<lparr>buf = 0, row0 = 1, col0 = 1, nrows = 3, ncols = 3\<rparr>"
  let ?r = "clean_boundary_inplace int8_of_int ?h ?a 1 300"
  have b: "(1::int) \<le> 1" by simp
  have v: "is_view ?h ?a" by (simp add: is_view_def)
  have w1: "2 * 1 \<le> int (nrows ?a)" and w2: "2 * 1 \<le> int (ncols ?a)" by simp_all
  have c: "int8_of_int 300 = Inr 44" by (simp add: int8_of_int_def int64_arg_def)
  from clean_boundary_inplace_border [OF b v w1 w2, of int8_of_int 300] c
  obtain h' where r: "?r = Inr (?a, h')"
    and other: "\<forall>q. q \<noteq> buf ?a \<longrightarrow> h' q = ?h q"
    and outside: "\<forall>i j. i < length (?h (buf ?a)) \<and> j < length (?h (buf ?a) ! i) \<and>
                      \<not> in_window ?a i j \<longrightarrow> h' (buf ?a) ! i ! j = ?h (buf ?a) ! i ! j"
    and cells: "\<forall>i j. i < nrows ?a \<and> j < ncols ?a \<longrightarrow>
                  getitem h' ?a i j =
                    Inr (if int i < 1 \<or> int (nrows ?a) - 1 \<le> int i \<or>
                            int j < 1 \<or> int (ncols ?a) - 1 \<le> int j
                         then 44 else ?h (buf ?a) ! (row0 ?a + i) ! (col0 ?a + j))"
    by blast
  from cells have "0 < nrows ?a \<and> 2 < ncols ?a \<longrightarrow> getitem h' ?a 0 2 =
      Inr (if int 0 < 1 \<or> int (nrows ?a) - 1 \<le> int 0 \<or> int 2 < 1 \<or> int (ncols ?a) - 1 \<le> int 2
           then 44 else ?h (buf ?a) ! (row0 ?a + 0) ! (col0 ?a + 2))"
    by blast
  with r have c02: "cell_after ?r 0 2 = Inr 44" by (simp add: cell_after_def)
  from cells have "1 < nrows ?a \<and> 1 < ncols ?a \<longrightarrow> getitem h' ?a 1 1 =
      Inr (if int 1 < 1 \<or> int (nrows ?a) - 1 \<le> int 1 \<or> int 1 < 1 \<or> int (ncols ?a) - 1 \<le> int 1
           then 44 else ?h (buf ?a) ! (row0 ?a + 1) ! (col0 ?a + 1))"
    by blast
  with r have c11: "cell_after ?r 1 1 = Inr 11" by (simp add: cell_after_def)
  from outside have "0 < length (?h (buf ?a)) \<and> 3 < length (?h (buf ?a) ! 0) \<and>
      \<not> in_window ?a 0 3 \<longrightarrow> h' (buf ?a) ! 0 ! 3 = ?h (buf ?a) ! 0 ! 3"
    by blast
  with r have out: "buffer_after ?r 0 ! 0 ! 3 = 4"
    by (simp add: buffer_after_def in_window_def)
  from other have "(1::nat) \<noteq> buf ?a \<longrightarrow> h' 1 = ?h 1" by blast
  with r have oth: "buffer_after ?r 1 = [[1, 2, 3, 4], [5, 6, 7, 8], [9, 10, 11, 12], [13, 14, 15, 16]]"
    by (simp add: buffer_after_def)
  have big: "int8_of_int 9223372036854775808 = Inl OverflowError"
    by (simp add: int8_of_int_def int64_arg_def)
  from clean_boundary_inplace_border [OF b v w1 w2, of int8_of_int 9223372036854775808] big
  have raises: "clean_boundary_inplace int8_of_int ?h ?a 1 9223372036854775808 = Inl (OverflowError, ?h)"
    by blast
  from b v w1 w2 c c02 c11 out oth big raises show ?thesis by blast
qed

theorem fill_value_counterexample:
  "is_view (store_of [[1, 2, 3], [4, 5, 6], [7, 8, 9::int]]) (whole 0 3 3) \<and>
   2 * (1::int) \<le> int (nrows (whole 0 3 3)) \<and> 2 * (1::int) \<le> int (ncols (whole 0 3 3)) \<and>
   cell_after
     (clean_boundary_inplace int8_of_int (store_of [[1, 2, 3], [4, 5, 6], [7, 8, 9]])
        (whole 0 3 3) 1 300) 0 0 = Inr 44 \<and>
   (44::int) \<noteq> 300"
  by (simp add: store_of_def whole_def is_view_def cell_after_def getitem_def
        clean_boundary_inplace_def int8_of_int_def int64_arg_def neg_int64_def setitem_def
        selected_def in_slice_def adjust_index_def Let_def)

text \<open>
  C9. The boundary reset is idempotent: for every store, every array, every width and
  every fill value, a second reset of the array that the first one returned ends as the
  first one did and leaves the store as the first one left it; and when the first reset
  raises, the second one raises the same exception and the store is still as it was.
\<close>

theorem clean_boundary_inplace_idempotent:
  "(case clean_boundary_inplace astype h array B fill_value of
      Inl e \<Rightarrow> clean_boundary_inplace astype (snd e) array B fill_value
    | Inr r \<Rightarrow> clean_boundary_inplace astype (snd r) (fst r) B fill_value)
   = clean_boundary_inplace astype h array B fill_value"
  by (simp add: clean_boundary_inplace_eq cleaned_idem split: sum.splits)

text \<open>
  C2. With \<open>boundary_size = 0\<close> the slice \<open>array[-0:, :]\<close> is \<open>array[0:, :]\<close>, the whole
  array: the reset of a 2 by 2 array of nonzero cells with fill value 0 returns and
  leaves no cell as it was.
\<close>

theorem clean_boundary_inplace_zero_width:
  "buffer_after
     (clean_boundary_inplace int64_of_int (\<lambda>_. [[1, 2], [3, 4]])
        \<lparr>buf = 0, row0 = 0, col0 = 0, nrows = 2, ncols = 2\<rparr> 0 0) 0
   = [[0, 0], [0, 0]] \<and>
   cell_after
     (clean_boundary_inplace int64_of_int (\<lambda>_. [[1, 2], [3, 4]])
        \<lparr>buf = 0, row0 = 0, col0 = 0, nrows = 2, ncols = 2\<rparr> 0 0) 1 1
   = Inr 0"
  by (simp add: buffer_after_def cell_after_def getitem_def clean_boundary_inplace_def
        int64_of_int_def int64_arg_def neg_int64_def setitem_def selected_def in_slice_def
        adjust_index_def Let_def)

section \<open>Properties of the relaxation loop\<close>

lemma sum_list_indicator:
  "sum_list (map (\<lambda>b. if b then 1 else 0) bs) = int (length (filter (\<lambda>b. b) bs))"
  by (induction bs) auto

lemma ndarray_sum_count_true: "ndarray_sum a = int (count_true a)"
  by (simp add: ndarray_sum_def count_true_def sum_list_indicator)

lemma count_true_fill_all_False [simp]: "count_true (fill_all a False) = 0"
  by (simp add: count_true_def fill_all_def filter_empty_conv)

lemma quiescent_is_final:
  "(spec_engine_step m)\<^sup>*\<^sup>* x y \<Longrightarrow> fst x = Quiescent \<Longrightarrow> y = x"
  by (induction rule: converse_rtranclp_induct) (auto elim: spec_engine_step.cases)

lemma topple_loop_to_engine:
  assumes "topple_loop m k s = Some y"
  shows "\<forall>n s'. y = Inr (n, s') \<longrightarrow>
      (\<exists>j. n = k + int j \<and>
           (\<forall>c. (spec_engine_step m)\<^sup>*\<^sup>* (Relaxing, c, s) (Quiescent, c + j, s')))"
proof (rule topple_loop.raw_induct
    [where P = "\<lambda>m k s y. \<forall>n s'. y = Inr (n, s') \<longrightarrow>
      (\<exists>j. n = k + int j \<and>
           (\<forall>c. (spec_engine_step m)\<^sup>*\<^sup>* (Relaxing, c, s) (Quiescent, c + j, s')))",
     OF _ assms], goal_cases)
  case (1 loop m k s y)
  show ?case
  proof (intro allI impI)
    fix n s' assume y: "y = Inr (n, s')"
    show "\<exists>j. n = k + int j \<and>
           (\<forall>c. (spec_engine_step m)\<^sup>*\<^sup>* (Relaxing, c, s) (Quiescent, c + j, s'))"
    proof (cases "topple m s")
      case (Inl e)
      with 1(2) y show ?thesis by simp
    next
      case (Inr r)
      show ?thesis
      proof (cases "fst r")
        case False
        with Inr 1(2) y have "n = k" "s' = snd r" by simp_all
        moreover from Inr False have "topple m s = Inr (False, snd r)"
          by (cases r) simp
        ultimately have "\<forall>c. (spec_engine_step m)\<^sup>*\<^sup>* (Relaxing, c, s) (Quiescent, c + 0, s')"
          by (auto intro: spec_engine_step.stop)
        with \<open>n = k\<close> show ?thesis by (intro exI [of _ 0]) simp
      next
        case True
        with Inr have t: "topple m s = Inr (True, snd r)" by (cases r) simp
        show ?thesis
        proof (cases "dissipate m (snd r)")
          case (Inl e)
          with Inr True 1(2) y show ?thesis by simp
        next
          case d: (Inr s2)
          with Inr True 1(2) have "loop m (k + 1) s2 = Some y" by simp
          from 1(1) [OF this] y obtain j where
            j: "n = k + 1 + int j"
               "\<And>c. (spec_engine_step m)\<^sup>*\<^sup>* (Relaxing, c, s2) (Quiescent, c + j, s')"
            by blast
          have "(spec_engine_step m)\<^sup>*\<^sup>* (Relaxing, c, s) (Quiescent, c + Suc j, s')" for c
            using spec_engine_step.again [OF t d, of c] j(2) [of "Suc c"]
            by (simp add: converse_rtranclp_into_rtranclp)
          with j(1) show ?thesis by (intro exI [of _ "Suc j"]) simp
        qed
      qed
    qed
  qed
qed

lemma engine_to_topple_loop:
  "(spec_engine_step m)\<^sup>*\<^sup>* x y \<Longrightarrow>
   (\<forall>c s k. x = (Relaxing, c, s) \<longrightarrow> y = (Quiescent, n, s') \<longrightarrow>
      c \<le> n \<and> topple_loop m k s = Some (Inr (k + int (n - c), s')))"
proof (induction rule: converse_rtranclp_induct)
  case base
  show ?case by simp
next
  case (step x z)
  show ?case
  proof (intro allI impI)
    fix c s k assume x: "x = (Relaxing, c, s)" and y: "y = (Quiescent, n, s')"
    from step(1) x show "c \<le> n \<and> topple_loop m k s = Some (Inr (k + int (n - c), s'))"
    proof (cases rule: spec_engine_step.cases)
      case (again s0 s1 s2 c0)
      with x have eq: "s0 = s" "c0 = c" "z = (Relaxing, Suc c, s2)" by simp_all
      from step(3) eq y have ih: "Suc c \<le> n"
        "topple_loop m (k + 1) s2 = Some (Inr (k + 1 + int (n - Suc c), s'))"
        by simp_all
      have "topple_loop m k s = topple_loop m (k + 1) s2"
        using again(3,4) eq by (subst topple_loop.simps) simp
      with ih show ?thesis by (simp add: of_nat_diff)
    next
      case (stop s0 s1 c0)
      with x have eq: "s0 = s" "c0 = c" "z = (Quiescent, c, s1)" by simp_all
      from quiescent_is_final [OF step(2)] eq y have "n = c" "s' = s1" by simp_all
      moreover have "topple_loop m k s = Some (Inr (k, s1))"
        using stop(3) eq by (subst topple_loop.simps) simp
      ultimately show ?thesis by simp
    qed (use x in simp)
  qed
qed

lemma engine_from_idle:
  "(spec_engine_step m)\<^sup>*\<^sup>* (Idle, c, s) (Quiescent, n, s') \<longleftrightarrow>
   (spec_engine_step m)\<^sup>*\<^sup>* (Relaxing, 0, s\<lparr>visited := fill_all (visited s) False\<rparr>) (Quiescent, n, s')"
proof
  assume "(spec_engine_step m)\<^sup>*\<^sup>* (Idle, c, s) (Quiescent, n, s')"
  then show "(spec_engine_step m)\<^sup>*\<^sup>* (Relaxing, 0, s\<lparr>visited := fill_all (visited s) False\<rparr>) (Quiescent, n, s')"
    by (cases rule: converse_rtranclpE) (auto elim: spec_engine_step.cases)
next
  assume "(spec_engine_step m)\<^sup>*\<^sup>* (Relaxing, 0, s\<lparr>visited := fill_all (visited s) False\<rparr>) (Quiescent, n, s')"
  with spec_engine_step.start [of m c s]
  show "(spec_engine_step m)\<^sup>*\<^sup>* (Idle, c, s) (Quiescent, n, s')"
    by (rule converse_rtranclp_into_rtranclp)
qed

lemma AvalancheLoop_Inr_iff:
  "AvalancheLoop m s = Some (Inr (obs, s')) \<longleftrightarrow>
   (\<exists>n. topple_loop m 0 (s\<lparr>visited := fill_all (visited s) False\<rparr>) = Some (Inr (n, s')) \<and>
        obs = [(''AvalancheSize'', ndarray_sum (visited s')), (''number_of_iterations'', n)])"
  by (auto simp: AvalancheLoop_def split: option.splits sum.splits)

text \<open>
  C5. \<open>AvalancheLoop\<close> returns a record and an object exactly when the engine of the
  specification, started in \<open>Idle\<close> on the same object, reaches \<open>Quiescent\<close> on the
  returned object, and then the record holds the output of the engine: the number of
  true cells of the visited mask and the number of rounds. For a model whose \<open>topple\<close>
  changes nothing and returns false, the record holds 0 and 0.
\<close>

theorem AvalancheLoop_refines_engine:
  "(AvalancheLoop m s = Some (Inr (obs, s')) \<longleftrightarrow>
      (\<exists>c. (spec_engine_step m)\<^sup>*\<^sup>* (Idle, 0, s) (Quiescent, c, s') \<and>
           obs = [(''AvalancheSize'', int (fst (spec_engine_output c s'))),
                  (''number_of_iterations'', int (snd (spec_engine_output c s')))])) \<and>
   ((\<forall>u. topple m u = Inr (False, u)) \<longrightarrow>
      AvalancheLoop m s =
        Some (Inr ([(''AvalancheSize'', 0), (''number_of_iterations'', 0)],
                   s\<lparr>visited := fill_all (visited s) False\<rparr>)))"
proof (intro conjI impI iffI)
  assume "AvalancheLoop m s = Some (Inr (obs, s'))"
  then obtain n where
    n: "topple_loop m 0 (s\<lparr>visited := fill_all (visited s) False\<rparr>) = Some (Inr (n, s'))"
    and obs: "obs = [(''AvalancheSize'', ndarray_sum (visited s')), (''number_of_iterations'', n)]"
    by (auto simp: AvalancheLoop_Inr_iff)
  from topple_loop_to_engine [OF n] obtain j where
    j: "n = int j"
       "\<And>c. (spec_engine_step m)\<^sup>*\<^sup>* (Relaxing, c, s\<lparr>visited := fill_all (visited s) False\<rparr>) (Quiescent, c + j, s')"
    by auto
  from j(2) [of 0] have "(spec_engine_step m)\<^sup>*\<^sup>* (Idle, 0, s) (Quiescent, j, s')"
    by (simp add: engine_from_idle)
  with obs j(1) show "\<exists>c. (spec_engine_step m)\<^sup>*\<^sup>* (Idle, 0, s) (Quiescent, c, s') \<and>
           obs = [(''AvalancheSize'', int (fst (spec_engine_output c s'))),
                  (''number_of_iterations'', int (snd (spec_engine_output c s')))]"
    by (auto simp: spec_engine_output_def ndarray_sum_count_true)
next
  assume "\<exists>c. (spec_engine_step m)\<^sup>*\<^sup>* (Idle, 0, s) (Quiescent, c, s') \<and>
           obs = [(''AvalancheSize'', int (fst (spec_engine_output c s'))),
                  (''number_of_iterations'', int (snd (spec_engine_output c s')))]"
  then obtain c where
    c: "(spec_engine_step m)\<^sup>*\<^sup>* (Relaxing, 0, s\<lparr>visited := fill_all (visited s) False\<rparr>) (Quiescent, c, s')"
    and obs: "obs = [(''AvalancheSize'', int (count_true (visited s'))), (''number_of_iterations'', int c)]"
    by (auto simp: engine_from_idle spec_engine_output_def)
  from engine_to_topple_loop [OF c]
  have "topple_loop m 0 (s\<lparr>visited := fill_all (visited s) False\<rparr>) = Some (Inr (int c, s'))"
    by simp
  with obs show "AvalancheLoop m s = Some (Inr (obs, s'))"
    by (simp add: AvalancheLoop_Inr_iff ndarray_sum_count_true)
next
  assume quiet: "\<forall>u. topple m u = Inr (False, u)"
  have "topple_loop m 0 (s\<lparr>visited := fill_all (visited s) False\<rparr>)
          = Some (Inr (0, s\<lparr>visited := fill_all (visited s) False\<rparr>))"
    using quiet by (subst topple_loop.simps) simp
  then show "AvalancheLoop m s =
        Some (Inr ([(''AvalancheSize'', 0), (''number_of_iterations'', 0)],
                   s\<lparr>visited := fill_all (visited s) False\<rparr>))"
    by (simp add: AvalancheLoop_Inr_iff ndarray_sum_count_true)
qed

theorem AvalancheLoop_refines_engine_witness:
  "AvalancheLoop pile ((lattice None)\<lparr>values_attr := Some [[0, 0, 0], [0, 3, 0], [0, 0, 0]]\<rparr>) =
     Some (Inr ([(''AvalancheSize'', 1), (''number_of_iterations'', 1)],
                (lattice None)\<lparr>values_attr := Some [[0, 0, 0], [0, 1, 0], [0, 0, 0]],
                                visited := [[False, False, False], [False, True, False],
                                            [False, False, False]]\<rparr>)) \<and>
   (spec_engine_step pile)\<^sup>*\<^sup>*
     (Idle, 0, (lattice None)\<lparr>values_attr := Some [[0, 0, 0], [0, 3, 0], [0, 0, 0]]\<rparr>)
     (Quiescent, 1,
      (lattice None)\<lparr>values_attr := Some [[0, 0, 0], [0, 1, 0], [0, 0, 0]],
                      visited := [[False, False, False], [False, True, False],
                                  [False, False, False]]\<rparr>) \<and>
   (\<forall>u. topple quiet u = Inr (False, u)) \<and>
   AvalancheLoop quiet (lattice None) =
     Some (Inr ([(''AvalancheSize'', 0), (''number_of_iterations'', 0)], lattice None))"
proof -
  let ?s = "(lattice None)\<lparr>values_attr := Some [[0, 0, 0], [0, 3, 0], [0, 0, 0]]\<rparr>"
  let ?s' = "(lattice None)\<lparr>values_attr := Some [[0, 0, 0], [0, 1, 0], [0, 0, 0]],
                            visited := [[False, False, False], [False, True, False],
                                        [False, False, False]]\<rparr>"
  let ?obs = "[(''AvalancheSize'', 1::int), (''number_of_iterations'', 1::int)]"
  have run: "AvalancheLoop pile ?s = Some (Inr (?obs, ?s'))"
    by (simp add: run_defs model_defs topple_loop.simps)
  from AvalancheLoop_refines_engine [of pile ?s ?obs ?s'] run
  obtain c where c: "(spec_engine_step pile)\<^sup>*\<^sup>* (Idle, 0, ?s) (Quiescent, c, ?s')"
    and obs: "?obs = [(''AvalancheSize'', int (fst (spec_engine_output c ?s'))),
                      (''number_of_iterations'', int (snd (spec_engine_output c ?s')))]"
    by blast
  from obs have "c = 1" by (simp add: spec_engine_output_def)
  with c have mach: "(spec_engine_step pile)\<^sup>*\<^sup>* (Idle, 0, ?s) (Quiescent, 1, ?s')" by simp
  have q: "\<forall>u. topple quiet u = Inr (False, u)"
    by (simp add: quiet_def model_defs)
  from AvalancheLoop_refines_engine [of quiet "lattice None"] q
  have "AvalancheLoop quiet (lattice None) =
     Some (Inr ([(''AvalancheSize'', 0), (''number_of_iterations'', 0)],
                (lattice None)\<lparr>visited := fill_all (visited (lattice None)) False\<rparr>))"
    by blast
  then have quiet: "AvalancheLoop quiet (lattice None) =
     Some (Inr ([(''AvalancheSize'', 0), (''number_of_iterations'', 0)], lattice None))"
    by (simp add: lattice_def fill_all_def)
  from run mach q quiet show ?thesis by blast
qed

section \<open>The methods of the base class\<close>

text \<open>
  C7. A class that does not override \<open>drive\<close> raises \<open>NotImplementedError\<close> when \<open>drive\<close>
  is called, whatever it overrides besides; the same holds for \<open>topple\<close>. A class that
  does not override \<open>dissipate\<close> returns from \<open>dissipate\<close> with the object unchanged.
\<close>

theorem base_methods:
  "drive (Simulation\<lparr>class_name := c, topple := t, dissipate := d\<rparr>) s =
     Inl (NotImplementedError ''Your model needs to override the drive method!'', s) \<and>
   topple (Simulation\<lparr>class_name := c, drive := dr, dissipate := d\<rparr>) s =
     Inl (NotImplementedError ''Your model needs to override the topple method!'', s) \<and>
   dissipate (Simulation\<lparr>class_name := c, drive := dr, topple := t\<rparr>) s = Inr s"
  by (simp add: Simulation_def Simulation_drive_def Simulation_topple_def Simulation_dissipate_def)

section \<open>The snapshot store in \<open>run\<close>\<close>

text \<open>
  C10. When \<open>save_every\<close> is \<open>None\<close>, \<open>run\<close> raises a type error while it computes the
  number of frames of the snapshot store: for every model, every number of iterations
  and every file name the call ends with that error and the object is as it was, so no
  \<open>drive\<close> was called, no record was appended and no store was opened. The constructor
  accepts \<open>None\<close> for every lattice size it accepts at all.
\<close>

theorem run_without_cadence:
  assumes "save_every s = None"
  shows "run m N_iterations filename now s = Some (Inl (TypeError, s)) \<and>
         (\<forall>l. - 2 \<le> l \<longrightarrow>
            map_sum id save_every (Simulation_init l None :: error + 'a simulation) = Inr None)"
  using assms by (simp add: run_def Simulation_init_def BOUNDARY_SIZE_def Let_def)

theorem run_without_cadence_witness:
  "save_every (lattice None) = None \<and>
   run pile 10 None ''2019-12-17T19:40:00.546426'' (lattice None) = Some (Inl (TypeError, lattice None)) \<and>
   map_sum id save_every (Simulation_init 1 None :: error + int simulation) = Inr None"
proof -
  have h: "save_every (lattice None) = None" by (simp add: lattice_def)
  from run_without_cadence [OF h, of pile 10 None "''2019-12-17T19:40:00.546426''"]
  have "run pile 10 None ''2019-12-17T19:40:00.546426'' (lattice None) = Some (Inl (TypeError, lattice None))"
    and "- 2 \<le> (1::int) \<longrightarrow> map_sum id save_every (Simulation_init 1 None :: error + int simulation) = Inr None"
    by blast+
  with h show ?thesis by simp
qed

text \<open>
  C1. A run of 5 steps with cadence 2 opens a store of \<open>max (5 // 2) 1 = 2\<close> frames and
  saves a snapshot at the steps 0, 2 and 4, at the indices 0, 1 and 2. The third write
  is out of bounds: the run ends with an index error, after the fifth record was
  appended.
\<close>

theorem run_snapshot_out_of_bounds:
  "raised (run pile 5 (Some ''snapshots.zarr'') [] (lattice (Some 2))) = Some (Some IndexError) \<and>
   map_option length (frames_after (run pile 5 (Some ''snapshots.zarr'') [] (lattice (Some 2)))) = Some 2 \<and>
   map_option length (records_after (run pile 5 (Some ''snapshots.zarr'') [] (lattice (Some 2)))) = Some 5 \<and>
   (4::int) mod 2 = 0 \<and> (4::int) div 2 = 2 \<and> max ((5::int) div 2) 1 = 2"
  by (simp add: raised_def frames_after_def records_after_def run_defs model_defs topple_loop.simps upt_rec)

section \<open>Determinism\<close>

lemma same_lattice_sym: "same_lattice s t \<Longrightarrow> same_lattice t s"
  by (auto simp: same_lattice_def)

lemma same_outcome_sym: "same_outcome x y \<Longrightarrow> same_outcome y x"
  by (auto simp: same_outcome_def same_lattice_def split: sum.splits)

lemma deterministic_topple:
  assumes "deterministic_pair m" "same_lattice s t"
  shows "(\<exists>e e'. topple m s = Inl e \<and> topple m t = Inl e' \<and> fst e = fst e' \<and>
            same_lattice (snd e) (snd e')) \<or>
         (\<exists>r r'. topple m s = Inr r \<and> topple m t = Inr r' \<and> fst r = fst r' \<and>
            same_lattice (snd r) (snd r'))"
proof -
  from assms have "same_outcome (topple m s) (topple m t)"
    by (simp add: deterministic_pair_def)
  then show ?thesis
    by (cases "topple m s"; cases "topple m t") (simp_all add: same_outcome_def)
qed

lemma deterministic_dissipate:
  assumes "deterministic_pair m" "same_lattice s t"
  shows "(\<exists>e e'. dissipate m s = Inl e \<and> dissipate m t = Inl e' \<and> fst e = fst e' \<and>
            same_lattice (snd e) (snd e')) \<or>
         (\<exists>s2 t2. dissipate m s = Inr s2 \<and> dissipate m t = Inr t2 \<and> same_lattice s2 t2)"
proof -
  from assms have "same_outcome (map_sum id (Pair ()) (dissipate m s))
                                (map_sum id (Pair ()) (dissipate m t))"
    by (simp add: deterministic_pair_def)
  then show ?thesis
    by (cases "dissipate m s"; cases "dissipate m t") (simp_all add: same_outcome_def)
qed

lemma topple_loop_deterministic:
  assumes "topple_loop m k s = Some y"
  shows "deterministic_pair m \<longrightarrow>
         (\<forall>t. same_lattice s t \<longrightarrow> (\<exists>y'. topple_loop m k t = Some y' \<and> same_outcome y y'))"
proof (rule topple_loop.raw_induct
    [where P = "\<lambda>m k s y. deterministic_pair m \<longrightarrow>
         (\<forall>t. same_lattice s t \<longrightarrow> (\<exists>y'. topple_loop m k t = Some y' \<and> same_outcome y y'))",
     OF _ assms], goal_cases)
  case (1 loop m k s y)
  show ?case
  proof (intro impI allI)
    fix t assume det: "deterministic_pair m" and st: "same_lattice s t"
    from deterministic_topple [OF det st]
    show "\<exists>y'. topple_loop m k t = Some y' \<and> same_outcome y y'"
    proof (elim disjE exE conjE)
      fix e e' assume *: "topple m s = Inl e" "topple m t = Inl e'" "fst e = fst e'"
        "same_lattice (snd e) (snd e')"
      from *(1) 1(2) have "y = Inl e" by simp
      moreover from *(2) have "topple_loop m k t = Some (Inl e')"
        by (subst topple_loop.simps) simp
      ultimately show ?thesis using *(3,4) by (simp add: same_outcome_def)
    next
      fix r r' assume *: "topple m s = Inr r" "topple m t = Inr r'" "fst r = fst r'"
        "same_lattice (snd r) (snd r')"
      show ?thesis
      proof (cases "fst r")
        case False
        with *(1) 1(2) have "y = Inr (k, snd r)" by simp
        moreover from False * have "topple_loop m k t = Some (Inr (k, snd r'))"
          by (subst topple_loop.simps) simp
        ultimately show ?thesis using *(4) by (simp add: same_outcome_def)
      next
        case True
        from deterministic_dissipate [OF det *(4)] show ?thesis
        proof (elim disjE exE conjE)
          fix e e' assume d: "dissipate m (snd r) = Inl e" "dissipate m (snd r') = Inl e'"
            "fst e = fst e'" "same_lattice (snd e) (snd e')"
          from True *(1) d(1) 1(2) have "y = Inl e" by simp
          moreover from True * d(2) have "topple_loop m k t = Some (Inl e')"
            by (subst topple_loop.simps) simp
          ultimately show ?thesis using d(3,4) by (simp add: same_outcome_def)
        next
          fix s2 t2 assume d: "dissipate m (snd r) = Inr s2" "dissipate m (snd r') = Inr t2"
            "same_lattice s2 t2"
          from True *(1) d(1) 1(2) have "loop m (k + 1) s2 = Some y" by simp
          from 1(1) [OF this] det d(3) obtain y' where
            y': "topple_loop m (k + 1) t2 = Some y'" "same_outcome y y'" by blast
          from True * d(2) have "topple_loop m k t = topple_loop m (k + 1) t2"
            by (subst topple_loop.simps) simp
          with y' show ?thesis by simp
        qed
      qed
    qed
  qed
qed

lemma topple_loop_deterministic_None:
  assumes "deterministic_pair m" "same_lattice s t" "topple_loop m k s = None"
  shows "topple_loop m k t = None"
proof (cases "topple_loop m k t")
  case (Some y)
  from topple_loop_deterministic [OF Some] assms(1) same_lattice_sym [OF assms(2)]
  obtain y' where "topple_loop m k s = Some y'" by blast
  with assms(3) show ?thesis by simp
qed simp

lemma visited_updates_deterministic:
  "deterministic_pair m \<Longrightarrow> same_lattice s t \<Longrightarrow> visited_updates m k s = visited_updates m k t"
proof (induction k arbitrary: s t)
  case 0
  show ?case by simp
next
  case (Suc k)
  from deterministic_topple [OF Suc.prems] show ?case
  proof (elim disjE exE conjE)
    fix e e' assume "topple m s = Inl e" "topple m t = Inl e'" "same_lattice (snd e) (snd e')"
    then show ?thesis by (simp add: same_lattice_def)
  next
    fix r r' assume *: "topple m s = Inr r" "topple m t = Inr r'" "fst r = fst r'"
      "same_lattice (snd r) (snd r')"
    from deterministic_dissipate [OF Suc.prems(1) *(4)] show ?thesis
    proof (elim disjE exE conjE)
      fix e e' assume "dissipate m (snd r) = Inl e" "dissipate m (snd r') = Inl e'"
        "same_lattice (snd e) (snd e')"
      with * show ?thesis by (simp add: same_lattice_def)
    next
      fix s2 t2 assume d: "dissipate m (snd r) = Inr s2" "dissipate m (snd r') = Inr t2"
        "same_lattice s2 t2"
      from Suc.IH [OF Suc.prems(1) d(3)] * d show ?thesis
        by (simp add: same_lattice_def)
    qed
  qed
qed

lemma same_lattice_reset:
  "same_lattice s t \<Longrightarrow>
   same_lattice (s\<lparr>visited := fill_all (visited s) False\<rparr>) (t\<lparr>visited := fill_all (visited t) False\<rparr>)"
  by (simp add: same_lattice_def)

text \<open>
  C8. For a deterministic \<open>topple\<close>/\<open>dissipate\<close> pair and two objects with equal \<open>values\<close>
  and equal visited masks, the two runs of \<open>AvalancheLoop\<close> pass through the same
  sequence of visited masks, and either neither ends, or both raise the same exception,
  or both return the same record: the same avalanche size and the same iteration count.
\<close>

theorem AvalancheLoop_deterministic:
  assumes "deterministic_pair m" and "same_lattice s t"
  shows "(\<forall>k. AvalancheLoop_visited m k s = AvalancheLoop_visited m k t) \<and>
         (case AvalancheLoop m s of
            None \<Rightarrow> AvalancheLoop m t = None
          | Some x \<Rightarrow> (case AvalancheLoop m t of None \<Rightarrow> False | Some y \<Rightarrow> same_outcome x y))"
proof
  from assms(2) have v: "visited s = visited t" by (simp add: same_lattice_def)
  show "\<forall>k. AvalancheLoop_visited m k s = AvalancheLoop_visited m k t"
    using visited_updates_deterministic [OF assms(1) same_lattice_reset [OF assms(2)]] v
    by (simp add: AvalancheLoop_visited_def)
next
  let ?s = "s\<lparr>visited := fill_all (visited s) False\<rparr>"
  let ?t = "t\<lparr>visited := fill_all (visited t) False\<rparr>"
  note st = same_lattice_reset [OF assms(2)]
  show "case AvalancheLoop m s of
            None \<Rightarrow> AvalancheLoop m t = None
          | Some x \<Rightarrow> (case AvalancheLoop m t of None \<Rightarrow> False | Some y \<Rightarrow> same_outcome x y)"
  proof (cases "topple_loop m 0 ?s")
    case None
    with topple_loop_deterministic_None [OF assms(1) st None] show ?thesis
      by (simp add: AvalancheLoop_def)
  next
    case (Some y)
    from topple_loop_deterministic [OF Some] assms(1) st obtain y' where
      y': "topple_loop m 0 ?t = Some y'" "same_outcome y y'" by blast
    from y'(2) Some y'(1) show ?thesis
      by (auto simp: AvalancheLoop_def same_outcome_def same_lattice_def split: sum.splits)
  qed
qed

theorem AvalancheLoop_deterministic_witness:
  "deterministic_pair pile \<and>
   same_lattice ((lattice (Some 2))\<lparr>values_attr := Some [[0, 0, 0], [0, 5, 0], [0, 0, 0]]\<rparr>)
                ((lattice None)\<lparr>values_attr := Some [[0, 0, 0], [0, 5, 0], [0, 0, 0]],
                                data_acquisition := [[(''AvalancheSize'', 0), (''number_of_iterations'', 0)]]\<rparr>) \<and>
   AvalancheLoop_visited pile 3 ((lattice (Some 2))\<lparr>values_attr := Some [[0, 0, 0], [0, 5, 0], [0, 0, 0]]\<rparr>) =
   AvalancheLoop_visited pile 3
     ((lattice None)\<lparr>values_attr := Some [[0, 0, 0], [0, 5, 0], [0, 0, 0]],
                     data_acquisition := [[(''AvalancheSize'', 0), (''number_of_iterations'', 0)]]\<rparr>) \<and>
   map_option (map_sum fst fst)
     (AvalancheLoop pile ((lattice (Some 2))\<lparr>values_attr := Some [[0, 0, 0], [0, 5, 0], [0, 0, 0]]\<rparr>)) =
     Some (Inr [(''AvalancheSize'', 1), (''number_of_iterations'', 2)]) \<and>
   map_option (map_sum fst fst)
     (AvalancheLoop pile
        ((lattice None)\<lparr>values_attr := Some [[0, 0, 0], [0, 5, 0], [0, 0, 0]],
                        data_acquisition := [[(''AvalancheSize'', 0), (''number_of_iterations'', 0)]]\<rparr>)) =
     Some (Inr [(''AvalancheSize'', 1), (''number_of_iterations'', 2)])"
proof -
  let ?s = "(lattice (Some 2))\<lparr>values_attr := Some [[0, 0, 0], [0, 5, 0], [0, 0, 0]]\<rparr>"
  let ?t = "(lattice None)\<lparr>values_attr := Some [[0, 0, 0], [0, 5, 0], [0, 0, 0]],
                data_acquisition := [[(''AvalancheSize'', 0), (''number_of_iterations'', 0)]]\<rparr>"
  have det: "deterministic_pair pile"
    by (auto simp: deterministic_pair_def model_defs same_outcome_def same_lattice_def
             split: option.splits)
  have same: "same_lattice ?s ?t"
    by (simp add: same_lattice_def lattice_def)
  have left: "map_option (map_sum fst fst) (AvalancheLoop pile ?s) =
     Some (Inr [(''AvalancheSize'', 1), (''number_of_iterations'', 2)])"
    by (simp add: run_defs model_defs topple_loop.simps)
  note inst = AvalancheLoop_deterministic [OF det same]
  from inst have trace: "AvalancheLoop_visited pile 3 ?s = AvalancheLoop_visited pile 3 ?t"
    by blast
  from left obtain x where x: "AvalancheLoop pile ?s = Some (Inr x)"
      "fst x = [(''AvalancheSize'', 1), (''number_of_iterations'', 2)]"
    by (cases "AvalancheLoop pile ?s") (auto simp: map_sum_def split: sum.splits)
  from inst x(1) obtain y where y: "AvalancheLoop pile ?t = Some y" "same_outcome (Inr x) y"
    by (cases "AvalancheLoop pile ?t") auto
  from y(2) x(2) have "map_sum fst fst y = Inr [(''AvalancheSize'', 1), (''number_of_iterations'', 2)]"
    by (cases y) (simp_all add: same_outcome_def)
  with y(1) have right: "map_option (map_sum fst fst) (AvalancheLoop pile ?t) =
     Some (Inr [(''AvalancheSize'', 1), (''number_of_iterations'', 2)])"
    by simp
  from det same trace left right show ?thesis by blast
qed

section \<open>The observable records\<close>

lemma set_DataFrame_columns: "set (DataFrame_columns recs) = (\<Union>r \<in> set recs. fst ` set r)"
  by (auto simp: DataFrame_columns_def)

text \<open>
  C3, as the code has it. The record that \<open>AvalancheLoop\<close> returns stores the sum of the
  visited mask under the key \<open>AvalancheSize\<close> and the counter of the loop under the key
  \<open>number_of_iterations\<close>; it has no key \<open>avalanche_size\<close>. The export of that record has
  the columns \<open>AvalancheSize\<close> and \<open>number_of_iterations\<close>, and the export of any
  accumulated records that end with it has a column \<open>AvalancheSize\<close>.
\<close>

theorem AvalancheLoop_record_keys:
  assumes "AvalancheLoop m s = Some (Inr (obs, s'))"
  shows "map_of obs ''AvalancheSize'' = Some (ndarray_sum (visited s')) \<and>
         (\<exists>n. topple_loop m 0 (s\<lparr>visited := fill_all (visited s) False\<rparr>) = Some (Inr (n, s')) \<and>
              map_of obs ''number_of_iterations'' = Some n) \<and>
         map_of obs ''avalanche_size'' = None \<and>
         DataFrame_columns [obs] = [''AvalancheSize'', ''number_of_iterations''] \<and>
         ''AvalancheSize'' \<in> set (DataFrame_columns (recs @ [obs]))"
proof -
  from assms obtain n where
    n: "topple_loop m 0 (s\<lparr>visited := fill_all (visited s) False\<rparr>) = Some (Inr (n, s'))"
    and obs: "obs = [(''AvalancheSize'', ndarray_sum (visited s')), (''number_of_iterations'', n)]"
    by (auto simp: AvalancheLoop_Inr_iff)
  have "''AvalancheSize'' \<in> set (DataFrame_columns (recs @ [obs]))"
    unfolding set_DataFrame_columns by (simp add: obs)
  moreover have "DataFrame_columns [obs] = [''AvalancheSize'', ''number_of_iterations'']"
    by (simp add: DataFrame_columns_def obs)
  ultimately show ?thesis using n by (simp add: obs)
qed

theorem AvalancheLoop_record_keys_witness:
  "AvalancheLoop pile ((lattice None)\<lparr>values_attr := Some [[0, 0, 0], [0, 3, 0], [0, 0, 0]]\<rparr>) =
     Some (Inr ([(''AvalancheSize'', 1), (''number_of_iterations'', 1)],
                (lattice None)\<lparr>values_attr := Some [[0, 0, 0], [0, 1, 0], [0, 0, 0]],
                                visited := [[False, False, False], [False, True, False],
                                            [False, False, False]]\<rparr>)) \<and>
   map_of [(''AvalancheSize'', 1::int), (''number_of_iterations'', 1)] ''AvalancheSize'' = Some 1 \<and>
   DataFrame_columns [[(''AvalancheSize'', 1), (''number_of_iterations'', 1)]] =
     [''AvalancheSize'', ''number_of_iterations'']"
proof -
  let ?s = "(lattice None)\<lparr>values_attr := Some [[0, 0, 0], [0, 3, 0], [0, 0, 0]]\<rparr>"
  let ?s' = "(lattice None)\<lparr>values_attr := Some [[0, 0, 0], [0, 1, 0], [0, 0, 0]],
                            visited := [[False, False, False], [False, True, False],
                                        [False, False, False]]\<rparr>"
  let ?obs = "[(''AvalancheSize'', 1::int), (''number_of_iterations'', 1::int)]"
  have run: "AvalancheLoop pile ?s = Some (Inr (?obs, ?s'))"
    by (simp add: run_defs model_defs topple_loop.simps)
  from AvalancheLoop_record_keys [OF run, of "[]"]
  have "map_of ?obs ''AvalancheSize'' = Some (ndarray_sum (visited ?s'))"
    and "DataFrame_columns [?obs] = [''AvalancheSize'', ''number_of_iterations'']"
    by blast+
  with run show ?thesis by (simp add: ndarray_sum_def lattice_def)
qed

theorem record_key_counterexample:
  "records_after (run pile 1 (Some ''snapshots.zarr'') [] (lattice (Some 2))) =
     Some [[(''AvalancheSize'', 1), (''number_of_iterations'', 1)]] \<and>
   map_of [(''AvalancheSize'', 1::int), (''number_of_iterations'', 1)] ''avalanche_size'' = None \<and>
   DataFrame_columns [[(''AvalancheSize'', 1), (''number_of_iterations'', 1)]] =
     [''AvalancheSize'', ''number_of_iterations''] \<and>
   ''avalanche_size'' \<notin> set [''AvalancheSize'', ''number_of_iterations'']"
  by (simp add: records_after_def DataFrame_columns_def run_defs model_defs topple_loop.simps)

section \<open>The simulation loop\<close>

text \<open>
  C6. The model \<open>Pile\<close> drives and relaxes without fault, and still a run of 5 steps
  with cadence 3 does not append 5 records. The store has \<open>max (5 // 3) 1 = 1\<close> frame;
  the step \<open>i = 3\<close> appends its record and then saves at the index \<open>3 // 3 = 1\<close>,
  outside the store. The run ends there with an index error, with 4 records appended;
  the steps after it never run.
\<close>

theorem run_stops_early:
  "raised (run pile 5 (Some ''snapshots.zarr'') [] (lattice (Some 3))) = Some (Some IndexError) \<and>
   map_option length (records_after (run pile 5 (Some ''snapshots.zarr'') [] (lattice (Some 3)))) = Some 4 \<and>
   map_option length (frames_after (run pile 5 (Some ''snapshots.zarr'') [] (lattice (Some 3)))) = Some 1 \<and>
   (3::int) mod 3 = 0 \<and> (3::int) div 3 = 1 \<and> max ((5::int) div 3) 1 = 1"
  by (simp add: raised_def frames_after_def records_after_def run_defs model_defs
        topple_loop.simps upt_rec)

end
